theory Spec2Isabelle
  imports Complex_Main "HOL-Library.Sublist"
begin

section \<open>Text\<close>

text \<open>
  A Python \<open>str\<close> is modelled as a \<open>string\<close>: one \<open>char\<close> per code point, for the
  code points below 256, so that \<open>length\<close> is Python's \<open>len\<close>.

  \<open>isspace\<close> is the character class that both \<open>str.strip()\<close> and the pattern
  element \<open>\s\<close> use on a \<open>str\<close>: in this range the code points 9 to 13, 28 to 31,
  32, 0x85 and 0xA0. The line feed (10) is one of them.
\<close>

definition isspace :: "char \<Rightarrow> bool" where
  "isspace c \<longleftrightarrow> (of_char c :: nat) \<in> {9, 10, 11, 12, 13, 28, 29, 30, 31, 32, 133, 160}"

text \<open>\<open>sub in s\<close> on two strings: \<open>sub\<close> occurs in \<open>s\<close> as a contiguous run.\<close>

definition str_in :: "string \<Rightarrow> string \<Rightarrow> bool" where
  "str_in sub s \<longleftrightarrow> sublist sub s"

text \<open>\<open>s.strip()\<close>: leading and trailing whitespace removed.\<close>

definition strip :: "string \<Rightarrow> string" where
  "strip s = rev (dropWhile isspace (rev (dropWhile isspace s)))"

text \<open>\<open>sep.join(xs)\<close>.\<close>

fun join :: "string \<Rightarrow> string list \<Rightarrow> string" where
  "join sep [] = []"
| "join sep [x] = x"
| "join sep (x # y # ys) = x @ sep @ join sep (y # ys)"

text \<open>\<open>str(n)\<close> for a non-negative integer: its decimal digits.\<close>

fun str_nat :: "nat \<Rightarrow> string" where
  "str_nat n =
     (if n < 10 then [''0123456789'' ! n]
      else str_nat (n div 10) @ [''0123456789'' ! (n mod 10)])"

declare str_nat.simps [simp del]

text \<open>
  Prepending a character to the first piece of a list of pieces: how a scan that walks
  the text from left to right extends the piece it is in.
\<close>

fun push_char :: "char \<Rightarrow> string list \<Rightarrow> string list" where
  "push_char c [] = [[c]]"
| "push_char c (p # ps) = (c # p) # ps"

text \<open>\<open>s.split('\n')\<close>: the pieces between line feeds, empty ones included.\<close>

fun split_lines :: "string \<Rightarrow> string list" where
  "split_lines [] = [[]]"
| "split_lines (c # cs) =
     (if c = CHR 0x0A then [] # split_lines cs else push_char c (split_lines cs))"

section \<open>The hunk splitter\<close>

subsection \<open>The pattern \<open>(^@@\s.*?\s@@)\<close> under \<open>re.MULTILINE\<close>\<close>

text \<open>
  \<open>lazy_close s\<close> matches \<open>.*?\s@@\<close> at the start of \<open>s\<close> and returns the number of
  characters consumed. The quantifier is lazy: at each position the matcher first tries
  to finish with \<open>\s@@\<close>, and only when that fails lets \<open>.\<close> take one more character;
  \<open>.\<close> takes any character but the line feed.
\<close>

fun lazy_close :: "string \<Rightarrow> nat option" where
  "lazy_close [] = None"
| "lazy_close (c # cs) =
     (if isspace c \<and> take 2 cs = ''@@'' then Some 3
      else if c = CHR 0x0A then None
      else map_option Suc (lazy_close cs))"

text \<open>
  \<open>match_header s\<close> matches \<open>@@\s.*?\s@@\<close> at the start of \<open>s\<close>: the length of the
  match, or \<open>None\<close>.
\<close>

definition match_header :: "string \<Rightarrow> nat option" where
  "match_header s =
     (case s of
        a # b # c # rest \<Rightarrow>
          if a = CHR ''@'' \<and> b = CHR ''@'' \<and> isspace c
          then map_option (\<lambda>n. 3 + n) (lazy_close rest) else None
      | _ \<Rightarrow> None)"

lemma lazy_close_ge3: "lazy_close s = Some n \<Longrightarrow> 3 \<le> n"
  by (induction s arbitrary: n) (auto split: if_splits)

lemma match_header_pos: "match_header s = Some n \<Longrightarrow> 0 < n"
  by (auto simp: match_header_def split: list.splits if_splits)

text \<open>
  \<open>re.split\<close> with the whole pattern in one capturing group: the text is scanned from
  left to right; at each position where \<open>^\<close> holds (the start of the text, or just
  after a line feed) and the pattern matches, the piece of text before the match and
  the match itself are emitted, and the scan goes on after the match. The rest of the
  text is the last piece. \<open>bol\<close> says whether \<open>^\<close> holds at the current position; a
  match ends in \<open>@\<close>, so \<open>^\<close> does not hold just after one.
\<close>

function re_split :: "bool \<Rightarrow> string \<Rightarrow> string list" where
  "re_split bol [] = [[]]"
| "re_split bol (c # cs) =
     (case (if bol then match_header (c # cs) else None) of
        Some n \<Rightarrow> [] # take n (c # cs) # re_split False (drop n (c # cs))
      | None \<Rightarrow> push_char c (re_split (c = CHR 0x0A) cs))"
  by pat_completeness auto
termination
  by (relation "measure (\<lambda>(bol, s). length s)") (auto split: if_splits dest: match_header_pos)

subsection \<open>\<open>AIReviewer.split_into_hunks\<close>\<close>

text \<open>
  The loop \<open>for i in range(1, len(hunks), 2)\<close> over \<open>hunks[1:]\<close>: \<open>header = hunks[i]\<close>,
  \<open>code = hunks[i+1]\<close> when there is one and the empty string otherwise, and the unit
  appended is \<open>file_header + "\n" + header + code\<close>.
\<close>

fun assemble :: "string \<Rightarrow> string list \<Rightarrow> string list" where
  "assemble file_header [] = []"
| "assemble file_header [header] = [file_header @ ''\<newline>'' @ header @ '''']"
| "assemble file_header (header # code # rest) =
     (file_header @ ''\<newline>'' @ header @ code) # assemble file_header rest"

definition split_into_hunks :: "string \<Rightarrow> string list" where
  "split_into_hunks diff_content =
     (let hunks = re_split True diff_content in
      if length hunks > 1 then assemble (hunks ! 0) (drop 1 hunks)
      else [diff_content])"

text \<open>
  Names for what the splitter's loop reads: the leading segment \<open>hunks[0]\<close>, and the
  headers \<open>hunks[1], hunks[3], ...\<close>, which are the matches of the pattern in the order
  found.
\<close>

fun headers_of :: "string list \<Rightarrow> string list" where
  "headers_of [] = []"
| "headers_of [header] = [header]"
| "headers_of (header # code # rest) = header # headers_of rest"

definition file_header_of :: "string \<Rightarrow> string" where
  "file_header_of text = hd (re_split True text)"

definition hunk_headers :: "string \<Rightarrow> string list" where
  "hunk_headers text = headers_of (tl (re_split True text))"


text \<open>
  The specification's reading of a hunk header, for comparison: a line of the text (the
  text cut at its line feeds) that matches the pattern from its first character, and the
  number of such lines.
\<close>

definition spec_hunk_header_line :: "string \<Rightarrow> bool" where
  "spec_hunk_header_line l \<longleftrightarrow> match_header l \<noteq> None"

definition spec_hunk_header_count :: "string \<Rightarrow> nat" where
  "spec_hunk_header_count text = length (filter spec_hunk_header_line (split_lines text))"

section \<open>The review client\<close>

subsection \<open>The reply of the inference endpoint\<close>

text \<open>
  What \<open>resp.json()\<close> returns: a Python value built from \<open>dict\<close>, \<open>list\<close>, \<open>str\<close>,
  \<open>int\<close>, \<open>float\<close>, \<open>bool\<close> and \<open>None\<close>. A \<open>dict\<close> is an association list read
  with \<open>map_of\<close>; a \<open>float\<close> is represented by a rational (a non-finite float is truthy
  as every non-zero one is).
\<close>

datatype json =
    JNull
  | JBool bool
  | JInt int
  | JFloat rat
  | JStr string
  | JArr "json list"
  | JObj "(string \<times> json) list"

text \<open>
  The exceptions that the \<open>try\<close> block of \<open>ask_llm\<close> can meet, all of them subclasses
  of \<open>Exception\<close>. \<open>RequestException\<close> and \<open>JSONDecodeError\<close> come from the HTTP
  library and carry the message that \<open>str(e)\<close> gives, which the library builds from the
  URL, the status line or the body it received. The others are raised by the
  interpreter on the decoded reply.
\<close>

datatype py_exception =
    RequestException string
  | JSONDecodeError string
  | AttributeError string string
  | TypeError string
  | KeyError string
  | IndexError string

definition quoted :: "string \<Rightarrow> string" where
  "quoted s = [CHR 0x27] @ s @ [CHR 0x27]"

fun str_exc :: "py_exception \<Rightarrow> string" where
  "str_exc (RequestException m) = m"
| "str_exc (JSONDecodeError m) = m"
| "str_exc (AttributeError ty attr) = quoted ty @ '' object has no attribute '' @ quoted attr"
| "str_exc (TypeError ty) = quoted ty @ '' object is not subscriptable''"
| "str_exc (KeyError k) = k"
| "str_exc (IndexError m) = m"

fun type_name :: "json \<Rightarrow> string" where
  "type_name JNull = ''NoneType''"
| "type_name (JBool b) = ''bool''"
| "type_name (JInt i) = ''int''"
| "type_name (JFloat q) = ''float''"
| "type_name (JStr s) = ''str''"
| "type_name (JArr xs) = ''list''"
| "type_name (JObj kvs) = ''dict''"

text \<open>\<open>v.get(key, default)\<close>: only a \<open>dict\<close> has the method.\<close>

fun py_get :: "json \<Rightarrow> string \<Rightarrow> json \<Rightarrow> py_exception + json" where
  "py_get (JObj kvs) k d = Inr (case map_of kvs k of Some v \<Rightarrow> v | None \<Rightarrow> d)"
| "py_get v k d = Inl (AttributeError (type_name v) ''get'')"

text \<open>The truth value of \<open>v\<close> in \<open>if v:\<close>.\<close>

fun truthy :: "json \<Rightarrow> bool" where
  "truthy JNull = False"
| "truthy (JBool b) = b"
| "truthy (JInt i) = (i \<noteq> 0)"
| "truthy (JFloat q) = (q \<noteq> 0)"
| "truthy (JStr s) = (s \<noteq> [])"
| "truthy (JArr xs) = (xs \<noteq> [])"
| "truthy (JObj kvs) = (kvs \<noteq> [])"

text \<open>
  \<open>v[0]\<close>: the first element of a list, the first character of a string (a string of
  length one), a lookup of the key \<open>0\<close> in a \<open>dict\<close> (whose keys are strings, so it
  fails), and a \<open>TypeError\<close> on everything else.
\<close>

fun py_first :: "json \<Rightarrow> py_exception + json" where
  "py_first (JArr (x # xs)) = Inr x"
| "py_first (JArr []) = Inl (IndexError ''list index out of range'')"
| "py_first (JStr (c # cs)) = Inr (JStr [c])"
| "py_first (JStr []) = Inl (IndexError ''string index out of range'')"
| "py_first (JObj kvs) = Inl (KeyError ''0'')"
| "py_first v = Inl (TypeError (type_name v))"

text \<open>\<open>v.strip()\<close>: only a \<open>str\<close> has the method.\<close>

fun py_strip :: "json \<Rightarrow> py_exception + string" where
  "py_strip (JStr s) = Inr (strip s)"
| "py_strip v = Inl (AttributeError (type_name v) ''strip'')"

text \<open>
  The outcome of the one HTTP exchange of a call: \<open>requests.post\<close> raised (a transport
  failure), \<open>raise_for_status\<close> raised (a 4xx or 5xx status), or the reply arrived, and
  then \<open>resp.json()\<close> either raises or returns a value (the same at both of its calls).
\<close>

datatype http_reply =
    PostRaised string
  | StatusRaised string
  | Body "string + json"

subsection \<open>\<open>AIReviewer.ask_llm\<close>\<close>

text \<open>The body of the \<open>try\<close> block, lines 92 to 99.\<close>

definition then_exc :: "py_exception + 'a \<Rightarrow> ('a \<Rightarrow> py_exception + 'b) \<Rightarrow> py_exception + 'b" where
  "then_exc r f = (case r of Inl e \<Rightarrow> Inl e | Inr v \<Rightarrow> f v)"

definition llm_try :: "http_reply \<Rightarrow> py_exception + string" where
  "llm_try reply =
     (case reply of
        PostRaised m \<Rightarrow> Inl (RequestException m)
      | StatusRaised m \<Rightarrow> Inl (RequestException m)
      | Body (Inl m) \<Rightarrow> Inl (JSONDecodeError m)
      | Body (Inr j) \<Rightarrow>
          then_exc (py_get j ''choices'' (JArr [])) (\<lambda>choices.
            if truthy choices then
              then_exc (py_first choices) (\<lambda>choice.
              then_exc (py_get choice ''message'' (JObj [])) (\<lambda>message.
              then_exc (py_get message ''content'' (JStr [])) py_strip))
            else
              then_exc (py_get j ''response'' (JStr [])) py_strip))"

text \<open>
  The text \<open>ask_llm\<close> returns for a reply: that of the \<open>try\<close> block, or on any
  exception \<open>f"LLM Error: {str(e)}"\<close>.
\<close>

definition llm_text :: "http_reply \<Rightarrow> string" where
  "llm_text reply =
     (case llm_try reply of
        Inr review \<Rightarrow> review
      | Inl e \<Rightarrow> ''LLM Error: '' @ str_exc e)"

section \<open>The run\<close>

subsection \<open>The environment and the state\<close>

text \<open>
  The outcome of a shell command in \<open>run_command\<close>: a non-zero exit status
  (\<open>CalledProcessError\<close>, with its message), output that is not UTF-8 (an exception
  that \<open>run_command\<close> does not catch), or the decoded output.
\<close>

datatype cmd_result = Exited string | Undecodable | Output string

text \<open>
  What the program reads from outside: the two branch names of the command line,
  \<open>CHUNK_LIMIT\<close> of the environment file, the shell, and the inference endpoint. The
  endpoint answers the \<open>k\<close>-th call (counted from 0) that \<open>ask_llm\<close> makes; a call is
  identified by the arguments of \<open>ask_llm\<close>, from which the posted prompt is built:
  the file name, the diff content, and \<open>is_partial\<close>, which selects the note
  \<open>(Partial Hunk Review)\<close> or \<open>(Full File Review)\<close>.
\<close>

record env =
  target_branch :: string
  source_branch :: string
  CHUNK_LIMIT :: int
  git :: "string \<Rightarrow> cmd_result"
  endpoint :: "nat \<Rightarrow> string \<times> string \<times> bool \<Rightarrow> http_reply"

text \<open>
  What the program changes: \<open>self.report_lines\<close>, the lines given to \<open>console.print\<close>,
  the calls of \<open>ask_llm\<close> made so far, the local variable \<open>final_review\<close> of
  \<open>generate_report\<close> (\<open>None\<close> while it is unbound; it lives across the files of the
  loop), and the content of \<open>PR_REVIEW.md\<close> once written.
\<close>

record run_state =
  report_lines :: "string list"
  console :: "string list"
  posts :: "(string \<times> string \<times> bool) list"
  final_review :: "string option"
  artifact :: "string option"

definition initial_state :: run_state where
  "initial_state =
     \<lparr>report_lines = [], console = [], posts = [], final_review = None, artifact = None\<rparr>"

text \<open>An exception or exit that ends the process.\<close>

datatype error =
    SystemExit int
  | UnicodeDecodeError
  | NameError string
  | UnboundLocalError string

type_synonym 'a result = "(error \<times> run_state) + 'a"

subsection \<open>The version-control commands\<close>

definition run_command :: "env \<Rightarrow> run_state \<Rightarrow> string \<Rightarrow> string result" where
  "run_command e st cmd =
     (case git e cmd of
        Exited m \<Rightarrow>
          Inl (SystemExit 1,
               st\<lparr>console := console st @ [''[bold red]Git Error:[/bold red] '' @ m]\<rparr>)
      | Undecodable \<Rightarrow> Inl (UnicodeDecodeError, st)
      | Output out \<Rightarrow> Inr (strip out))"

definition excluded_file :: "string \<Rightarrow> bool" where
  "excluded_file f \<longleftrightarrow>
     suffix ''.lock'' f \<or> suffix ''.png'' f \<or> suffix ''.jpg'' f \<or> suffix ''.svg'' f"

definition get_changed_files :: "env \<Rightarrow> run_state \<Rightarrow> string \<Rightarrow> string list result" where
  "get_changed_files e st merge_base =
     (case run_command e st
             (''git diff --name-only '' @ merge_base @ '' '' @ source_branch e) of
        Inl err \<Rightarrow> Inl err
      | Inr stats \<Rightarrow> Inr (filter (\<lambda>f. f \<noteq> [] \<and> \<not> excluded_file f) (split_lines stats)))"

definition get_file_diff :: "env \<Rightarrow> run_state \<Rightarrow> string \<Rightarrow> string \<Rightarrow> string result" where
  "get_file_diff e st merge_base file_name =
     run_command e st
       (''git diff '' @ merge_base @ '' '' @ source_branch e @ '' -- '' @ file_name)"

subsection \<open>The call of the review client\<close>

definition ask_llm :: "env \<Rightarrow> run_state \<Rightarrow> string \<Rightarrow> string \<Rightarrow> bool \<Rightarrow> string \<times> run_state" where
  "ask_llm e st file_name content is_partial =
     (llm_text (endpoint e (length (posts st)) (file_name, content, is_partial)),
      st\<lparr>posts := posts st @ [(file_name, content, is_partial)]\<rparr>)"

subsection \<open>The loop over the hunks, lines 132 to 138\<close>

text \<open>
  The names a lookup at line 133 can find: the local variables of \<open>generate_report\<close>
  (all that the function ever binds) and the names bound at module level. No built-in
  is called \<open>filename\<close>.
\<close>

definition names_in_scope :: "string list" where
  "names_in_scope =
     [''self'', ''merge_base'', ''files'', ''progress'', ''task'', ''file_name'', ''raw_diff'',
      ''hunks'', ''file_comments'', ''i'', ''hunk'', ''review'', ''final_review'',
      ''sys'', ''subprocess'', ''requests'', ''os'', ''re'', ''load_dotenv'', ''Console'',
      ''Markdown'', ''Progress'', ''SpinnerColumn'', ''TextColumn'', ''OLLAMA_URL'',
      ''AI_MODEL'', ''CHUNK_LIMIT'', ''console'', ''AIReviewer'', ''target_branch'',
      ''source_branch'', ''reviewer'']"

text \<open>Line 136: \<open>f"**Hunk {i+1}:**\n{review}"\<close>.\<close>

definition hunk_comment :: "nat \<Rightarrow> string \<Rightarrow> string" where
  "hunk_comment i review = ''**Hunk '' @ str_nat (i + 1) @ '':**\<newline>'' @ review"

text \<open>Lines 135 and 136: the comment is appended when the review lacks \<open>LGTM\<close>.\<close>

definition add_comment :: "nat \<Rightarrow> string \<Rightarrow> string list \<Rightarrow> string list" where
  "add_comment i review file_comments =
     (if \<not> str_in ''LGTM'' review then file_comments @ [hunk_comment i review]
      else file_comments)"

text \<open>Line 138: \<open>"\n\n".join(file_comments) if file_comments else "LGTM"\<close>.\<close>

definition merge_comments :: "string list \<Rightarrow> string" where
  "merge_comments file_comments =
     (if file_comments \<noteq> [] then join ''\<newline>\<newline>'' file_comments else ''LGTM'')"

text \<open>
  What lines 135 and 136 make of \<open>file_comments\<close> over the iterations for the hunks
  \<open>i, i + 1, ...\<close>, whose reviews are \<open>reviews\<close>.
\<close>

fun collect_comments :: "nat \<Rightarrow> string list \<Rightarrow> string list \<Rightarrow> string list" where
  "collect_comments i [] file_comments = file_comments"
| "collect_comments i (review # rest) file_comments =
     collect_comments (i + 1) rest (add_comment i review file_comments)"

text \<open>
  One iteration for the hunk at index \<open>i\<close>, then the rest of the loop. The first
  statement of the body builds the progress label and reads the name \<open>filename\<close> for
  it; a name that no scope binds raises \<open>NameError\<close>, which nothing catches. \<open>scope\<close>
  is the list of names bound where the loop runs.
\<close>

fun review_hunks ::
  "env \<Rightarrow> string list \<Rightarrow> string \<Rightarrow> nat \<Rightarrow> string list \<Rightarrow> string list \<Rightarrow> run_state
     \<Rightarrow> run_state result" where
  "review_hunks e scope file_name i [] file_comments st = Inr st"
| "review_hunks e scope file_name i (hunk # rest) file_comments st =
     (if ''filename'' \<notin> set scope then Inl (NameError ''filename'', st)
      else
        (case ask_llm e st file_name hunk True of
           (review, st1) \<Rightarrow>
             let file_comments' = add_comment i review file_comments in
             review_hunks e scope file_name (i + 1) rest file_comments'
               (st1\<lparr>final_review := Some (merge_comments file_comments')\<rparr>)))"

subsection \<open>One file of the loop of \<open>generate_report\<close>, lines 123 to 150\<close>

text \<open>Lines 143 to 147: the result is stored when the final review lacks \<open>LGTM\<close>.\<close>

definition report_entry :: "string \<Rightarrow> string \<Rightarrow> string" where
  "report_entry file_name review = ''## `'' @ file_name @ ''`\<newline>'' @ review @ ''\<newline>''"

definition store_result :: "string \<Rightarrow> run_state \<Rightarrow> run_state result" where
  "store_result file_name st =
     (case final_review st of
        None \<Rightarrow> Inl (UnboundLocalError ''final_review'', st)
      | Some review \<Rightarrow>
          if \<not> str_in ''LGTM'' review then
            Inr (st\<lparr>report_lines := report_lines st @ [report_entry file_name review],
                    console := console st @ [''[bold red]Issues in '' @ file_name @ ''[/bold red]'']\<rparr>)
          else
            Inr (st\<lparr>console :=
                      console st @ [''[bold green]LGTM for '' @ file_name @ ''[/bold green]'']\<rparr>))"

definition review_file ::
  "env \<Rightarrow> string list \<Rightarrow> string \<Rightarrow> run_state \<Rightarrow> string \<Rightarrow> run_state result" where
  "review_file e scope merge_base st file_name =
     (case get_file_diff e st merge_base file_name of
        Inl err \<Rightarrow> Inl err
      | Inr raw_diff \<Rightarrow>
          if int (length raw_diff) > CHUNK_LIMIT e then
            (case review_hunks e scope file_name 0 (split_into_hunks raw_diff) [] st of
               Inl err \<Rightarrow> Inl err
             | Inr st1 \<Rightarrow> store_result file_name st1)
          else
            (case ask_llm e st file_name raw_diff False of
               (review, st1) \<Rightarrow> store_result file_name (st1\<lparr>final_review := Some review\<rparr>)))"

subsection \<open>\<open>AIReviewer.save_report\<close> and \<open>AIReviewer.generate_report\<close>\<close>

definition no_issues_message :: string where
  "no_issues_message = ''\<newline>[bold green] No issues found. The code looks great![/bold green]''"

definition report_content :: "env \<Rightarrow> string list \<Rightarrow> string" where
  "report_content e entries =
     ''# AI Code Review: '' @ source_branch e @ ''\<newline>\<newline>'' @ join ''\<newline>---\<newline>'' entries"

definition save_report :: "env \<Rightarrow> run_state \<Rightarrow> run_state" where
  "save_report e st =
     (if report_lines st = [] then st\<lparr>console := console st @ [no_issues_message]\<rparr>
      else
        st\<lparr>artifact := Some (report_content e (report_lines st)),
           console := console st @
             [''\<newline>[bold yellow]Review Complete![/bold yellow] Report saved to: [underline]PR_REVIEW.md[/underline]'']\<rparr>)"

fun review_files ::
  "env \<Rightarrow> string list \<Rightarrow> string \<Rightarrow> string list \<Rightarrow> run_state \<Rightarrow> run_state result" where
  "review_files e scope merge_base [] st = Inr st"
| "review_files e scope merge_base (file_name # files) st =
     (case review_file e scope merge_base st file_name of
        Inl err \<Rightarrow> Inl err
      | Inr st1 \<Rightarrow> review_files e scope merge_base files st1)"

definition generate_report :: "env \<Rightarrow> run_state result" where
  "generate_report e =
     (let st0 = initial_state\<lparr>console :=
                  [''[bold blue]Starting Review:[/bold blue] '' @ target_branch e @ '' <- '' @ source_branch e]\<rparr>
      in
      case run_command e st0
             (''git merge-base origin/'' @ target_branch e @ '' '' @ source_branch e) of
        Inl err \<Rightarrow> Inl err
      | Inr merge_base \<Rightarrow>
          (case get_changed_files e st0 merge_base of
             Inl err \<Rightarrow> Inl err
           | Inr files \<Rightarrow>
               if files = [] then
                 Inr (st0\<lparr>console := console st0 @ [''[bold yellow]No changes detected.[/bold yellow]'']\<rparr>)
               else
                 (case review_files e names_in_scope merge_base files st0 of
                    Inl err \<Rightarrow> Inl err
                  | Inr st1 \<Rightarrow> Inr (save_report e st1))))"

section \<open>Notions for stating the properties\<close>

text \<open>No comment of the list contains \<open>LGTM\<close>.\<close>

definition lacks_LGTM :: "string list \<Rightarrow> bool" where
  "lacks_LGTM cs \<longleftrightarrow> (\<forall>c \<in> set cs. \<not> str_in ''LGTM'' c)"



text \<open>
  The exceptions that the interpreter raises while the \<open>try\<close> block reads the decoded
  reply, as opposed to those that the HTTP library raises with a message of its own.
\<close>

definition raised_on_reply :: "py_exception \<Rightarrow> bool" where
  "raised_on_reply exc =
     (case exc of RequestException m \<Rightarrow> False | JSONDecodeError m \<Rightarrow> False | _ \<Rightarrow> True)"




text \<open>
  An example environment: the branches \<open>main\<close> and \<open>feature\<close>, a merge base
  \<open>abc123\<close>, a given list of changed files, the same diff for every file, and an
  endpoint whose \<open>k\<close>-th reply is given. \<open>chat_reply\<close> is a well-formed reply with
  the given message content.
\<close>

definition chat_reply :: "string \<Rightarrow> http_reply" where
  "chat_reply content =
     Body (Inr (JObj [(''choices'', JArr [JObj [(''message'', JObj [(''content'', JStr content)])]])]))"

definition example_env :: "int \<Rightarrow> string \<Rightarrow> string \<Rightarrow> (nat \<Rightarrow> http_reply) \<Rightarrow> env" where
  "example_env limit names_out diff_out replies =
     \<lparr>target_branch = ''main'', source_branch = ''feature'', CHUNK_LIMIT = limit,
      git = (\<lambda>cmd.
        if cmd = ''git merge-base origin/main feature'' then Output ''abc123\<newline>''
        else if cmd = ''git diff --name-only abc123 feature'' then Output names_out
        else if prefix ''git diff abc123 feature -- '' cmd then Output diff_out
        else Exited ''Command returned non-zero exit status 128.''),
      endpoint = (\<lambda>k request. replies k)\<rparr>"

definition two_hunk_diff :: string where
  "two_hunk_diff = ''--- a\<newline>+++ b\<newline>@@ -1 +1 @@\<newline>-a\<newline>+b\<newline>@@ -5 +5 @@\<newline>-c\<newline>+d''"

section \<open>Properties of the splitter\<close>

lemma concat_push_char: "concat (push_char c ps) = c # concat ps"
  by (cases ps) auto

lemma push_char_not_Nil: "push_char c ps \<noteq> []"
  by (cases ps) auto

lemma re_split_not_Nil: "re_split bol s \<noteq> []"
  by (induction bol s rule: re_split.induct) (auto simp: push_char_not_Nil split: option.splits)

lemma tl_push_char: "ps \<noteq> [] \<Longrightarrow> tl (push_char c ps) = tl ps"
  by (cases ps) auto

lemma hd_push_char: "ps \<noteq> [] \<Longrightarrow> hd (push_char c ps) = c # hd ps"
  by (cases ps) auto

lemma length_push_char: "ps \<noteq> [] \<Longrightarrow> length (push_char c ps) = length ps"
  by (cases ps) auto

lemma re_split_concat: "concat (re_split bol s) = s"
  by (induction bol s rule: re_split.induct) (auto simp: concat_push_char split: option.splits)

lemma re_split_odd: "odd (length (re_split bol s))"
  by (induction bol s rule: re_split.induct)
     (auto simp: length_push_char re_split_not_Nil split: option.splits)

lemma lazy_close_take: "lazy_close s = Some n \<Longrightarrow> n \<le> length s \<and> lazy_close (take n s) = Some n"
proof (induction s arbitrary: n)
  case Nil
  then show ?case by simp
next
  case (Cons c cs)
  show ?case
  proof (cases "isspace c \<and> take 2 cs = ''@@''")
    case True
    with Cons.prems have n: "n = Suc (Suc (Suc 0))" by simp
    from True obtain cs' where cs: "cs = CHR ''@'' # CHR ''@'' # cs'"
      by (cases cs; cases "tl cs"; simp)
    from True show ?thesis unfolding n cs by simp
  next
    case False
    with Cons.prems obtain m where m: "lazy_close cs = Some m" "n = Suc m" "c \<noteq> CHR 0x0A"
      by (auto split: if_splits)
    from Cons.IH[OF m(1)] have ih: "m \<le> length cs" "lazy_close (take m cs) = Some m" by auto
    from lazy_close_ge3[OF m(1)] have "min 2 m = 2" by simp
    then have t: "take 2 (take m cs) = take 2 cs" by simp
    have "lazy_close (c # take m cs) = Some (Suc m)"
      using False m(3) ih(2) by (simp only: lazy_close.simps t) simp
    with ih(1) show ?thesis unfolding m(2) by simp
  qed
qed

lemma match_header_SomeD:
  assumes "match_header s = Some n"
  obtains c rest m where "s = CHR ''@'' # CHR ''@'' # c # rest" "isspace c"
    "lazy_close rest = Some m" "n = 3 + m"
  using assms by (auto simp: match_header_def split: list.splits if_splits)

lemma match_header_take:
  assumes "match_header s = Some n"
  shows "n \<le> length s \<and> match_header (take n s) = Some n"
proof -
  from assms obtain c rest m where s: "s = CHR ''@'' # CHR ''@'' # c # rest" and c: "isspace c"
    and m: "lazy_close rest = Some m" and n: "n = 3 + m"
    by (rule match_header_SomeD)
  from lazy_close_take[OF m] have lt: "m \<le> length rest" "lazy_close (take m rest) = Some m" by auto
  have tk: "take n s = CHR ''@'' # CHR ''@'' # c # take m rest"
    unfolding s n by (simp add: numeral_3_eq_3)
  have "match_header (CHR ''@'' # CHR ''@'' # c # take m rest) = Some (3 + m)"
    using c lt(2) by (simp add: match_header_def)
  with lt(1) show ?thesis unfolding tk[symmetric] unfolding s n by simp
qed


lemma length_assemble: "length (assemble fh rest) = length (headers_of rest)"
  by (induction fh rest rule: assemble.induct) auto

lemma length_headers_of: "length (headers_of rest) = (length rest + 1) div 2"
  by (induction rest rule: headers_of.induct) auto



lemma re_split_hd_tl: "re_split bol s = hd (re_split bol s) # tl (re_split bol s)"
  using re_split_not_Nil by simp

lemma file_header_concat: "file_header_of text @ concat (tl (re_split True text)) = text"
proof -
  have "concat (re_split True text) = text" by (rule re_split_concat)
  then show ?thesis
    by (subst (asm) re_split_hd_tl) (simp add: file_header_of_def)
qed

lemma headers_Nil_iff: "headers_of rest = [] \<longleftrightarrow> rest = []"
  by (induction rest rule: headers_of.induct) auto

lemma split_into_hunks_matches:
  "hunk_headers text \<noteq> [] \<Longrightarrow>
     split_into_hunks text = assemble (file_header_of text) (tl (re_split True text))"
proof -
  assume "hunk_headers text \<noteq> []"
  then have "tl (re_split True text) \<noteq> []" by (simp add: hunk_headers_def headers_Nil_iff)
  then have "length (re_split True text) > 1" by (cases "re_split True text") auto
  then show ?thesis
    by (simp add: split_into_hunks_def Let_def file_header_of_def hd_conv_nth re_split_not_Nil drop_Suc)
qed

lemma split_into_hunks_no_match:
  "hunk_headers text = [] \<Longrightarrow> split_into_hunks text = [text]"
proof -
  assume "hunk_headers text = []"
  then have "tl (re_split True text) = []" by (simp add: hunk_headers_def headers_Nil_iff)
  then have "length (re_split True text) = 1" using re_split_not_Nil[of True "text"] by (cases "re_split True text") auto
  then show ?thesis
    by (simp add: split_into_hunks_def Let_def)
qed

text \<open>
  The matches and the lines. A match of the pattern at the start of a line stays a match
  when text follows the line; so where no match that the scan finds contains a line
  feed, the matches are one per line that matches from its first character.
\<close>

lemma lazy_close_le: "lazy_close s = Some n \<Longrightarrow> n \<le> length s"
  using lazy_close_take by blast

lemma lazy_close_append: "lazy_close l = Some n \<Longrightarrow> lazy_close (l @ r) = Some n"
proof (induction l arbitrary: n)
  case Nil
  then show ?case by simp
next
  case (Cons c cs)
  show ?case
  proof (cases "isspace c \<and> take 2 cs = ''@@''")
    case True
    then obtain cs' where cs: "cs = CHR ''@'' # CHR ''@'' # cs'"
      by (cases cs; cases "tl cs"; simp)
    from True Cons.prems show ?thesis unfolding cs by simp
  next
    case False
    with Cons.prems obtain m where m: "lazy_close cs = Some m" "n = Suc m" "c \<noteq> CHR 0x0A"
      by (auto split: if_splits)
    from lazy_close_ge3[OF m(1)] lazy_close_le[OF m(1)] have "2 \<le> length cs" by simp
    then have t: "take 2 (cs @ r) = take 2 cs" by simp
    have "lazy_close (c # (cs @ r)) = Some (Suc m)"
      using False m(3) Cons.IH[OF m(1)] by (simp only: lazy_close.simps t) simp
    then show ?thesis unfolding m(2) by simp
  qed
qed

lemma match_header_append: "match_header l = Some n \<Longrightarrow> match_header (l @ r) = Some n"
proof -
  assume a: "match_header l = Some n"
  then obtain c rest m where l: "l = CHR ''@'' # CHR ''@'' # c # rest" and c: "isspace c"
    and m: "lazy_close rest = Some m" and n: "n = 3 + m"
    by (rule match_header_SomeD)
  from lazy_close_append[OF m] have "lazy_close (rest @ r) = Some m" .
  with c show ?thesis unfolding l n by (simp add: match_header_def)
qed

lemma split_lines_not_Nil: "split_lines s \<noteq> []"
  by (induction s) (auto simp: push_char_not_Nil)

lemma split_lines_append:
  "CHR 0x0A \<notin> set a \<Longrightarrow>
     split_lines (a @ b) = (a @ hd (split_lines b)) # tl (split_lines b)"
proof (induction a)
  case Nil
  then show ?case using split_lines_not_Nil[of b] by simp
next
  case (Cons x xs)
  then show ?case by auto
qed

lemma first_line_prefix: "\<exists>r. s = hd (split_lines s) @ r"
proof (induction s)
  case Nil
  then show ?case by simp
next
  case (Cons c cs)
  then obtain r where r: "cs = hd (split_lines cs) @ r" by blast
  show ?case
  proof (cases "c = CHR 0x0A")
    case True
    then show ?thesis by simp
  next
    case False
    have 1: "c # cs = (c # hd (split_lines cs)) @ r" using r by simp
    have "hd (split_lines (c # cs)) = c # hd (split_lines cs)"
      using False hd_push_char[OF split_lines_not_Nil, of c cs] by simp
    with 1 show ?thesis by metis
  qed
qed

lemma first_line_no_match:
  assumes "match_header s = None"
  shows "\<not> spec_hunk_header_line (hd (split_lines s))"
proof
  assume "spec_hunk_header_line (hd (split_lines s))"
  then obtain n where n: "match_header (hd (split_lines s)) = Some n"
    by (auto simp: spec_hunk_header_line_def)
  obtain r where r: "s = hd (split_lines s) @ r" using first_line_prefix by blast
  from match_header_append[OF n, of r] r have "match_header s = Some n" by simp
  with assms show False by simp
qed

lemma headers_of_tl_Cons2: "headers_of (tl ([] # h # rs)) = h # headers_of (tl rs)" if "rs \<noteq> []"
  using that by (cases rs) simp_all

lemma header_lines_count:
  assumes "list_all (\<lambda>h. CHR 0x0A \<notin> set h) (headers_of (tl (re_split bol s)))"
  shows "length (headers_of (tl (re_split bol s)))
       = length (filter spec_hunk_header_line (if bol then split_lines s else tl (split_lines s)))"
  using assms
proof (induction bol s rule: re_split.induct)
  case (1 bol)
  then show ?case by (simp add: spec_hunk_header_line_def match_header_def)
next
  case (2 bol c cs)
  let ?s = "c # cs"
  show ?case
  proof (cases "if bol then match_header ?s else None")
    case (Some n)
    then have bol: bol and mh: "match_header ?s = Some n" by (auto split: if_splits)
    let ?r = "re_split False (drop n ?s)"
    have rs: "re_split bol ?s = [] # take n ?s # ?r" using Some by simp
    have hd: "headers_of (tl (re_split bol ?s)) = take n ?s # headers_of (tl ?r)"
      unfolding rs by (rule headers_of_tl_Cons2) (rule re_split_not_Nil)
    from "2.prems" have nl: "CHR 0x0A \<notin> set (take n ?s)"
      and rest: "list_all (\<lambda>h. CHR 0x0A \<notin> set h) (headers_of (tl ?r))"
      unfolding hd by simp_all
    from "2.IH"(2)[OF Some rest]
    have ih: "length (headers_of (tl ?r)) = length (filter spec_hunk_header_line (tl (split_lines (drop n ?s))))"
      by simp
    from match_header_take[OF mh] have mt: "match_header (take n ?s) = Some n" by blast
    have "split_lines ?s = split_lines (take n ?s @ drop n ?s)" by simp
    also have "\<dots> = (take n ?s @ hd (split_lines (drop n ?s))) # tl (split_lines (drop n ?s))"
      by (rule split_lines_append[OF nl])
    finally have sl: "split_lines ?s =
        (take n ?s @ hd (split_lines (drop n ?s))) # tl (split_lines (drop n ?s))" .
    have "spec_hunk_header_line (take n ?s @ hd (split_lines (drop n ?s)))"
      using match_header_append[OF mt] by (simp add: spec_hunk_header_line_def)
    then have "length (filter spec_hunk_header_line (split_lines ?s))
        = Suc (length (filter spec_hunk_header_line (tl (split_lines (drop n ?s)))))"
      unfolding sl by simp
    with bol ih show ?thesis unfolding hd by simp
  next
    case None
    let ?r = "re_split (c = CHR 0x0A) cs"
    have rs: "re_split bol ?s = push_char c ?r" using None by simp
    have hd: "headers_of (tl (re_split bol ?s)) = headers_of (tl ?r)"
      unfolding rs by (simp add: tl_push_char re_split_not_Nil)
    from "2.prems" have "list_all (\<lambda>h. CHR 0x0A \<notin> set h) (headers_of (tl ?r))"
      unfolding hd .
    from "2.IH"(1)[OF None this]
    have ih: "length (headers_of (tl ?r)) = length (filter spec_hunk_header_line
        (if c = CHR 0x0A then split_lines cs else tl (split_lines cs)))" .
    show ?thesis
    proof (cases "c = CHR 0x0A")
      case True
      have "\<not> spec_hunk_header_line []" by (simp add: spec_hunk_header_line_def match_header_def)
      with True ih show ?thesis unfolding hd by simp
    next
      case False
      have sl: "split_lines ?s = (c # hd (split_lines cs)) # tl (split_lines cs)"
        using False split_lines_not_Nil[of cs] by (cases "split_lines cs") simp_all
      show ?thesis
      proof (cases bol)
        case True
        with None have "match_header ?s = None" by simp
        from first_line_no_match[OF this] have "\<not> spec_hunk_header_line (c # hd (split_lines cs))"
          unfolding sl by simp
        with True False ih show ?thesis unfolding hd sl by simp
      next
        case False
        with \<open>c \<noteq> CHR 0x0A\<close> ih show ?thesis unfolding hd sl by simp
      qed
    qed
  qed
qed

lemma single_line_headers_count:
  "list_all (\<lambda>h. CHR 0x0A \<notin> set h) (hunk_headers text) \<Longrightarrow>
     spec_hunk_header_count text = length (hunk_headers text)"
  using header_lines_count[of True "text"]
  by (simp add: hunk_headers_def spec_hunk_header_count_def)

section \<open>The claims about the splitter\<close>





text \<open>
  Claim C2, as amended. When the pattern has no match in the text, \<open>split_into_hunks\<close>
  returns exactly one unit, the whole text unchanged: the splitter itself falls back to
  the whole text, and its result is never the empty sequence. Such a text has no line
  that matches the pattern.
\<close>

theorem no_match_whole_text:
  assumes "hunk_headers text = []"
  shows "split_into_hunks text = [text] \<and> spec_hunk_header_count text = 0"
proof -
  from assms have "spec_hunk_header_count text = length (hunk_headers text)"
    by (intro single_line_headers_count) simp
  with assms split_into_hunks_no_match[OF assms] show ?thesis by simp
qed

theorem no_match_whole_text_witness:
  "hunk_headers ''diff --git a/x b/y\<newline>similarity index 100%'' = []
   \<and> split_into_hunks ''diff --git a/x b/y\<newline>similarity index 100%''
      = [''diff --git a/x b/y\<newline>similarity index 100%'']"
proof -
  have h: "hunk_headers ''diff --git a/x b/y\<newline>similarity index 100%'' = []"
    by (simp add: hunk_headers_def match_header_def)
  from no_match_whole_text[OF h] h show ?thesis by blast
qed

text \<open>
  C2 as stated fails: a text without any hunk-header line yields one unit, not zero.
\<close>

theorem zero_units_counterexample:
  "spec_hunk_header_count ''diff --git a/x b/y\<newline>similarity index 100%'' = 0
   \<and> length (split_into_hunks ''diff --git a/x b/y\<newline>similarity index 100%'') = 1"
  by (simp add: spec_hunk_header_count_def spec_hunk_header_line_def split_into_hunks_def
        match_header_def)

text \<open>
  Claim C9, as amended. When the pattern has exactly one match in the text, the text is
  the leading segment, the header and the content after it, and the splitter returns
  exactly one unit: the leading segment, one line feed, the header and the content. The
  unit is the text with one line feed put in front of the hunk header. Where the header
  contains no line feed, the text has exactly one line that matches the pattern.
\<close>

theorem single_hunk_unit:
  assumes "hunk_headers text = [header]"
  shows "(\<exists>code. text = file_header_of text @ header @ code
           \<and> split_into_hunks text = [file_header_of text @ ''\<newline>'' @ header @ code])
       \<and> (CHR 0x0A \<notin> set header \<longrightarrow> spec_hunk_header_count text = 1)"
proof -
  let ?rest = "tl (re_split True text)"
  from assms have h: "headers_of ?rest = [header]" by (simp add: hunk_headers_def)
  have "odd (length (re_split True text))" by (rule re_split_odd)
  then have ev: "even (length ?rest)" using re_split_not_Nil[of True "text"]
    by (cases "re_split True text") auto
  from h have "length (headers_of ?rest) = 1" by simp
  then have "(length ?rest + 1) div 2 = 1" by (simp add: length_headers_of)
  with ev have "length ?rest = 2" by presburger
  then obtain a b where ab: "?rest = [a, b]"
    by (cases ?rest; cases "tl ?rest"; auto)
  with h have a: "a = header" by simp
  from assms have ne: "hunk_headers text \<noteq> []" by simp
  have "text = file_header_of text @ header @ b"
    using file_header_concat[of "text"] by (simp add: ab a)
  moreover have "split_into_hunks text = [file_header_of text @ ''\<newline>'' @ header @ b]"
    by (simp add: split_into_hunks_matches[OF ne] ab a)
  moreover have "spec_hunk_header_count text = 1" if "CHR 0x0A \<notin> set header"
    using single_line_headers_count[of "text"] assms that by simp
  ultimately show ?thesis by blast
qed

lemma one_hunk_split:
  "re_split True ''--- a\<newline>+++ b\<newline>@@ -1 +1 @@\<newline>-a\<newline>+b''
     = [''--- a\<newline>+++ b\<newline>'', ''@@ -1 +1 @@'', ''\<newline>-a\<newline>+b'']"
  by (simp add: match_header_def isspace_def)

theorem single_hunk_unit_witness:
  "hunk_headers ''--- a\<newline>+++ b\<newline>@@ -1 +1 @@\<newline>-a\<newline>+b'' = [''@@ -1 +1 @@'']
   \<and> (\<exists>code. ''--- a\<newline>+++ b\<newline>@@ -1 +1 @@\<newline>-a\<newline>+b''
             = file_header_of ''--- a\<newline>+++ b\<newline>@@ -1 +1 @@\<newline>-a\<newline>+b'' @ ''@@ -1 +1 @@'' @ code
         \<and> split_into_hunks ''--- a\<newline>+++ b\<newline>@@ -1 +1 @@\<newline>-a\<newline>+b''
             = [file_header_of ''--- a\<newline>+++ b\<newline>@@ -1 +1 @@\<newline>-a\<newline>+b'' @ ''\<newline>'' @ ''@@ -1 +1 @@'' @ code])"
proof -
  have h: "hunk_headers ''--- a\<newline>+++ b\<newline>@@ -1 +1 @@\<newline>-a\<newline>+b'' = [''@@ -1 +1 @@'']"
    unfolding hunk_headers_def one_hunk_split by simp
  from single_hunk_unit[OF h] h show ?thesis by blast
qed

text \<open>
  C9 as stated fails: the one unit of a diff with a leading segment and one hunk is not
  the diff itself, it has one more line feed.
\<close>

theorem single_hunk_identity_counterexample:
  "spec_hunk_header_count ''--- a\<newline>+++ b\<newline>@@ -1 +1 @@\<newline>-a\<newline>+b'' = 1
   \<and> split_into_hunks ''--- a\<newline>+++ b\<newline>@@ -1 +1 @@\<newline>-a\<newline>+b''
       = [''--- a\<newline>+++ b\<newline>\<newline>@@ -1 +1 @@\<newline>-a\<newline>+b'']
   \<and> split_into_hunks ''--- a\<newline>+++ b\<newline>@@ -1 +1 @@\<newline>-a\<newline>+b''
       \<noteq> [''--- a\<newline>+++ b\<newline>@@ -1 +1 @@\<newline>-a\<newline>+b'']"
  by (simp add: spec_hunk_header_count_def spec_hunk_header_line_def split_into_hunks_def
        match_header_def isspace_def)

section \<open>The merged commentary of a decomposed file\<close>

lemma sublist_across_sep:
  assumes "c \<notin> set sub"
  shows "sublist sub (xs @ c # ys) \<longleftrightarrow> sublist sub xs \<or> sublist sub ys"
proof (cases sub)
  case Nil
  then show ?thesis by simp
next
  case (Cons a as)
  have 1: "sublist sub (c # ys) \<longleftrightarrow> sublist sub ys"
    using assms Cons by (auto simp: sublist_Cons_right)
  have 2: "sublist sub xs" if "sub = xs1 @ xs2" "suffix xs1 xs" "prefix xs2 (c # ys)" for xs1 xs2
  proof (cases xs2)
    case Nil
    with that show ?thesis by (simp add: suffix_imp_sublist)
  next
    case (Cons b bs)
    with that(3) have "b = c" by simp
    with that(1) Cons assms show ?thesis by simp
  qed
  show ?thesis
    unfolding sublist_append 1 using 2 by blast
qed

lemma str_nat_digits: "set (str_nat n) \<subseteq> set ''0123456789''"
proof (induction n rule: str_nat.induct)
  case (1 n)
  have d: "''0123456789'' ! k \<in> set ''0123456789''" if "k < 10" for k
    using that by (intro nth_mem) simp
  show ?case
  proof (cases "n < 10")
    case True
    then show ?thesis using d[of n] by (subst str_nat.simps) simp
  next
    case False
    have "n mod 10 < 10" by simp
    from d[OF this] 1[OF False] False show ?thesis
      by (subst str_nat.simps) simp
  qed
qed

lemma str_nat_no_L: "CHR ''L'' \<notin> set (str_nat n)"
proof
  assume "CHR ''L'' \<in> set (str_nat n)"
  then have "CHR ''L'' \<in> set ''0123456789''" using str_nat_digits by blast
  then show False by simp
qed

lemma hunk_comment_no_LGTM:
  assumes "\<not> str_in ''LGTM'' review"
  shows "\<not> str_in ''LGTM'' (hunk_comment i review)"
proof -
  define label where "label = ''**Hunk '' @ str_nat (i + 1) @ '':**''"
  have "CHR ''L'' \<notin> set label"
    unfolding label_def using str_nat_no_L[of "i + 1"] by simp
  moreover have "CHR ''L'' \<in> set ''LGTM''" by simp
  ultimately have l: "\<not> sublist ''LGTM'' label"
    using set_mono_sublist[of "''LGTM''" label] by blast
  have "hunk_comment i review = label @ CHR 0x0A # review"
    by (simp add: hunk_comment_def label_def)
  moreover have "sublist ''LGTM'' (label @ CHR 0x0A # review) \<longleftrightarrow>
      sublist ''LGTM'' label \<or> sublist ''LGTM'' review"
    by (rule sublist_across_sep) simp
  ultimately show ?thesis
    using l assms by (simp only: str_in_def) simp
qed

lemma join_no_LGTM:
  assumes "\<forall>c \<in> set cs. \<not> str_in ''LGTM'' c"
  shows "cs = [] \<or> \<not> str_in ''LGTM'' (join ''\<newline>\<newline>'' cs)"
  using assms
proof (induction "''\<newline>\<newline>''" cs rule: join.induct)
  case 1
  then show ?case by simp
next
  case (2 x)
  then show ?case by simp
next
  case (3 x y ys)
  then have ih: "\<not> sublist ''LGTM'' (join ''\<newline>\<newline>'' (y # ys))" and x: "\<not> sublist ''LGTM'' x"
    by (auto simp: str_in_def)
  have "join ''\<newline>\<newline>'' (x # y # ys) = x @ CHR 0x0A # (CHR 0x0A # join ''\<newline>\<newline>'' (y # ys))"
    by simp
  moreover have "\<not> sublist ''LGTM'' (CHR 0x0A # join ''\<newline>\<newline>'' (y # ys))"
    using ih by (simp add: sublist_Cons_right)
  ultimately show ?case using x by (simp add: str_in_def sublist_across_sep del: join.simps)
qed

lemma add_comment_lacks: "lacks_LGTM fc \<Longrightarrow> lacks_LGTM (add_comment i r fc)"
proof (cases "str_in ''LGTM'' r")
  case True
  assume "lacks_LGTM fc"
  with True show ?thesis by (simp add: add_comment_def)
next
  case False
  assume a: "lacks_LGTM fc"
  from False have "\<not> str_in ''LGTM'' (hunk_comment i r)" by (rule hunk_comment_no_LGTM)
  with a False show ?thesis by (simp add: add_comment_def lacks_LGTM_def)
qed

lemma collect_comments_lacks:
  "lacks_LGTM fc \<Longrightarrow> lacks_LGTM (collect_comments i reviews fc)"
proof (induction reviews arbitrary: i fc)
  case Nil
  then show ?case by simp
next
  case (Cons r rs)
  from Cons.prems have "lacks_LGTM (add_comment i r fc)" by (rule add_comment_lacks)
  then have "lacks_LGTM (collect_comments (i + 1) rs (add_comment i r fc))" by (rule Cons.IH)
  then show ?case by simp
qed

lemma add_comment_Nil_iff: "add_comment i r fc = [] \<longleftrightarrow> fc = [] \<and> str_in ''LGTM'' r"
  by (simp add: add_comment_def)

lemma collect_comments_Nil_iff:
  "collect_comments i reviews fc = [] \<longleftrightarrow> fc = [] \<and> list_all (str_in ''LGTM'') reviews"
proof (induction reviews arbitrary: i fc)
  case Nil
  then show ?case by simp
next
  case (Cons r rs)
  have "collect_comments i (r # rs) fc = [] \<longleftrightarrow> collect_comments (i + 1) rs (add_comment i r fc) = []"
    by simp
  also have "\<dots> \<longleftrightarrow> add_comment i r fc = [] \<and> list_all (str_in ''LGTM'') rs"
    by (rule Cons.IH)
  also have "\<dots> \<longleftrightarrow> fc = [] \<and> list_all (str_in ''LGTM'') (r # rs)"
    unfolding add_comment_Nil_iff by auto
  finally show ?case .
qed

lemma LGTM_in_LGTM: "str_in ''LGTM'' ''LGTM''"
  unfolding str_in_def by (rule sublist_order.order_refl)

text \<open>
  Claim C10. Whatever the reviews of the units are, the merged commentary that lines
  135 to 138 build from them contains \<open>LGTM\<close> exactly when every review does. So when
  at least one unit is flagged, the merged text (the flagged entries under their
  \<open>**Hunk i:**\<close> labels, joined by blank lines) does not contain \<open>LGTM\<close>, and the
  check of line 143 on the merged text agrees with the checks of line 135 on the units.
\<close>

theorem merged_commentary_consistent:
  "str_in ''LGTM'' (merge_comments (collect_comments 0 reviews [])) \<longleftrightarrow>
     list_all (str_in ''LGTM'') reviews"
proof (cases "collect_comments 0 reviews [] = []")
  case True
  then have "merge_comments (collect_comments 0 reviews []) = ''LGTM''"
    by (simp only: merge_comments_def) simp
  with LGTM_in_LGTM have "str_in ''LGTM'' (merge_comments (collect_comments 0 reviews []))"
    by simp
  moreover from True have "list_all (str_in ''LGTM'') reviews"
    unfolding collect_comments_Nil_iff by blast
  ultimately show ?thesis by blast
next
  case False
  have "lacks_LGTM (collect_comments 0 reviews [])"
    by (rule collect_comments_lacks) (simp add: lacks_LGTM_def)
  then have "\<forall>c \<in> set (collect_comments 0 reviews []). \<not> str_in ''LGTM'' c"
    by (simp only: lacks_LGTM_def)
  from join_no_LGTM[OF this] False
  have "\<not> str_in ''LGTM'' (merge_comments (collect_comments 0 reviews []))"
    by (simp only: merge_comments_def if_True) simp
  moreover from False have "\<not> list_all (str_in ''LGTM'') reviews"
    unfolding collect_comments_Nil_iff by blast
  ultimately show ?thesis by blast
qed

section \<open>The review of one file\<close>

lemma split_into_hunks_not_Nil: "split_into_hunks text \<noteq> []"
proof (cases "hunk_headers text = []")
  case True
  then show ?thesis by (simp add: split_into_hunks_no_match)
next
  case False
  then have "length (split_into_hunks text) = length (hunk_headers text)"
    by (simp add: split_into_hunks_matches length_assemble hunk_headers_def)
  with False show ?thesis by auto
qed

lemma filename_unbound: "''filename'' \<notin> set names_in_scope"
  by (simp add: names_in_scope_def)

lemma review_hunks_unbound:
  assumes "''filename'' \<notin> set scope" and "hunks \<noteq> []"
  shows "review_hunks e scope file_name i hunks fc st = Inl (NameError ''filename'', st)"
  using assms by (cases hunks) simp_all


lemma get_file_diff_Output:
  assumes "git e (''git diff '' @ merge_base @ '' '' @ source_branch e @ '' -- '' @ file_name) = Output out"
  shows "get_file_diff e st merge_base file_name = Inr (strip out)"
  using assms by (simp add: get_file_diff_def run_command_def)

lemma review_file_decomposed:
  assumes "git e (''git diff '' @ merge_base @ '' '' @ source_branch e @ '' -- '' @ file_name) = Output out"
    and "int (length (strip out)) > CHUNK_LIMIT e"
  shows "review_file e names_in_scope merge_base st file_name = Inl (NameError ''filename'', st)"
proof -
  have "review_hunks e names_in_scope file_name 0 (split_into_hunks (strip out)) [] st
      = Inl (NameError ''filename'', st)"
    by (rule review_hunks_unbound[OF filename_unbound split_into_hunks_not_Nil])
  with assms(2) show ?thesis
    by (simp add: review_file_def get_file_diff_Output[OF assms(1)])
qed

text \<open>
  Claim C7 (the code does not do what the claim says). The claim: in the decomposed path
  the loop over the units runs to its end, the progress label reading only names in
  scope. The code: whenever the diff of a file is longer than \<open>CHUNK_LIMIT\<close>, the
  first statement of the first iteration reads the name \<open>filename\<close>, which no scope
  of the program binds (the loop variable is \<open>file_name\<close>), so the file's review
  raises \<open>NameError\<close> in the state it started in: before any call of the review client.
\<close>

theorem decomposed_path_raises:
  assumes "git e (''git diff '' @ merge_base @ '' '' @ source_branch e @ '' -- '' @ file_name) = Output out"
    and "int (length (strip out)) > CHUNK_LIMIT e"
  shows "review_file e names_in_scope merge_base st file_name = Inl (NameError ''filename'', st)"
  using assms by (rule review_file_decomposed)




section \<open>Example runs\<close>

lemma strip_two_hunk_diff: "strip two_hunk_diff = two_hunk_diff"
  by (simp add: strip_def two_hunk_diff_def isspace_def)

lemma length_two_hunk_diff: "length two_hunk_diff = 47"
  by (simp add: two_hunk_diff_def)

lemma example_git_diff:
  "git (example_env limit names_out diff_out replies)
     (''git diff '' @ ''abc123'' @ '' '' @ source_branch (example_env limit names_out diff_out replies)
        @ '' -- '' @ ''a.py'') = Output diff_out"
  by (simp add: example_env_def)

theorem decomposed_path_raises_witness:
  "int (length (strip two_hunk_diff)) > 10
   \<and> review_file (example_env 10 ''a.py'' two_hunk_diff (\<lambda>k. chat_reply ''LGTM'')) names_in_scope
        ''abc123'' initial_state ''a.py''
      = Inl (NameError ''filename'', initial_state)"
proof -
  have gt: "int (length (strip two_hunk_diff)) >
      CHUNK_LIMIT (example_env 10 ''a.py'' two_hunk_diff (\<lambda>k. chat_reply ''LGTM''))"
    by (simp add: strip_two_hunk_diff length_two_hunk_diff example_env_def)
  from decomposed_path_raises[OF example_git_diff gt, of initial_state] gt
  show ?thesis by (simp add: example_env_def)
qed

lemma run_command_example_merge_base:
  "run_command (example_env limit names_out diff_out replies) st
     ''git merge-base origin/main feature'' = Inr ''abc123''"
  by (simp add: run_command_def example_env_def strip_def isspace_def)

lemma get_changed_files_example:
  "get_changed_files (example_env limit ''a.py'' diff_out replies) st ''abc123'' = Inr [''a.py'']"
  by (simp add: get_changed_files_def run_command_def example_env_def strip_def isspace_def
        excluded_file_def suffix_def)

text \<open>
  Claim C3 (the code does not do what the claim says). The claim: in the decomposed path
  the merged verdict of a file is CLEAN exactly when every unit's verdict is, and
  otherwise the merged text is the labelled flagged entries. The code: a run over one
  file whose diff has two hunks and is longer than \<open>CHUNK_LIMIT\<close>, with an endpoint
  that would answer \<open>LGTM\<close> for the first hunk and \<open>- missing null check\<close> for the
  second, ends with \<open>NameError\<close> before any unit is reviewed: no verdict, no report
  entry, no call. The defect is the one of C7.
\<close>

theorem two_hunk_run_raises:
  "generate_report (example_env 10 ''a.py'' two_hunk_diff
       (\<lambda>k. chat_reply (if k = 0 then ''LGTM'' else ''- missing null check'')))
     = Inl (NameError ''filename'',
            initial_state\<lparr>console := [''[bold blue]Starting Review:[/bold blue] main <- feature'']\<rparr>)"
proof -
  let ?e = "example_env 10 ''a.py'' two_hunk_diff
       (\<lambda>k. chat_reply (if k = 0 then ''LGTM'' else ''- missing null check''))"
  have b: "target_branch ?e = ''main''" "source_branch ?e = ''feature''"
    by (simp_all add: example_env_def)
  have gt: "int (length (strip two_hunk_diff)) > CHUNK_LIMIT ?e"
    by (simp add: strip_two_hunk_diff length_two_hunk_diff example_env_def)
  have rf: "review_file ?e names_in_scope ''abc123'' st ''a.py'' = Inl (NameError ''filename'', st)" for st
    by (rule review_file_decomposed[OF example_git_diff gt])
  show ?thesis
    unfolding generate_report_def Let_def b
    by (simp add: run_command_example_merge_base get_changed_files_example rf)
qed

section \<open>Examples for the review of one file and for the merged commentary\<close>






lemma not_LGTM_null_check: "\<not> str_in ''LGTM'' ''- missing null check''"
  by (simp add: str_in_def sublist_code)

theorem merged_commentary_consistent_witness:
  "\<not> list_all (str_in ''LGTM'') [''LGTM'', ''- missing null check'']
   \<and> \<not> str_in ''LGTM'' (merge_comments (collect_comments 0 [''LGTM'', ''- missing null check''] []))
   \<and> merge_comments (collect_comments 0 [''LGTM'', ''- missing null check''] [])
        = ''**Hunk 2:**\<newline>- missing null check''"
proof -
  have n: "\<not> list_all (str_in ''LGTM'') [''LGTM'', ''- missing null check'']"
    by (simp add: not_LGTM_null_check)
  have "merge_comments (collect_comments 0 [''LGTM'', ''- missing null check''] [])
        = ''**Hunk 2:**\<newline>- missing null check''"
    by (simp add: merge_comments_def add_comment_def hunk_comment_def LGTM_in_LGTM
          not_LGTM_null_check str_nat.simps)
  with merged_commentary_consistent[of "[''LGTM'', ''- missing null check'']"] n
  show ?thesis by simp
qed

section \<open>The detection of a clean review\<close>





section \<open>Failures of the inference call\<close>

lemma then_exc_Inl:
  "then_exc r f = Inl exc \<Longrightarrow> r = Inl exc \<or> (\<exists>v. r = Inr v \<and> f v = Inl exc)"
  by (cases r) (simp_all add: then_exc_def)

lemma type_name_no_L: "CHR ''L'' \<notin> set (type_name v)"
  by (cases v) simp_all

lemma py_get_no_L: "py_get v k d = Inl exc \<Longrightarrow> CHR ''L'' \<notin> set (str_exc exc) \<and> raised_on_reply exc"
  using type_name_no_L[of v] by (cases v) (auto simp: quoted_def raised_on_reply_def)

lemma py_strip_no_L: "py_strip v = Inl exc \<Longrightarrow> CHR ''L'' \<notin> set (str_exc exc) \<and> raised_on_reply exc"
  using type_name_no_L[of v] by (cases v) (auto simp: quoted_def raised_on_reply_def)

lemma py_first_no_L: "py_first v = Inl exc \<Longrightarrow> CHR ''L'' \<notin> set (str_exc exc) \<and> raised_on_reply exc"
proof (cases v)
  case (JStr s)
  assume "py_first v = Inl exc"
  with JStr show ?thesis by (cases s) (auto simp: raised_on_reply_def)
next
  case (JArr xs)
  assume "py_first v = Inl exc"
  with JArr show ?thesis by (cases xs) (auto simp: raised_on_reply_def)
qed (use type_name_no_L[of v] in \<open>auto simp: quoted_def raised_on_reply_def\<close>)

lemma llm_try_body_no_L:
  assumes "llm_try (Body (Inr j)) = Inl exc"
  shows "CHR ''L'' \<notin> set (str_exc exc)"
proof -
  let ?P = "\<lambda>exc. CHR ''L'' \<notin> set (str_exc exc)"
  have inner: "?P exc" if "then_exc (py_get v k d) py_strip = Inl exc" for v k d
    using then_exc_Inl[OF that] py_get_no_L py_strip_no_L by blast
  from assms have t: "then_exc (py_get j ''choices'' (JArr [])) (\<lambda>choices.
            if truthy choices then
              then_exc (py_first choices) (\<lambda>choice.
              then_exc (py_get choice ''message'' (JObj [])) (\<lambda>message.
              then_exc (py_get message ''content'' (JStr [])) py_strip))
            else
              then_exc (py_get j ''response'' (JStr [])) py_strip) = Inl exc"
    by (simp add: llm_try_def)
  from then_exc_Inl[OF t] show ?thesis
  proof
    assume "py_get j ''choices'' (JArr []) = Inl exc"
    then show ?thesis using py_get_no_L by blast
  next
    assume "\<exists>v. py_get j ''choices'' (JArr []) = Inr v \<and>
        (if truthy v then
              then_exc (py_first v) (\<lambda>choice.
              then_exc (py_get choice ''message'' (JObj [])) (\<lambda>message.
              then_exc (py_get message ''content'' (JStr [])) py_strip))
            else
              then_exc (py_get j ''response'' (JStr [])) py_strip) = Inl exc"
    then obtain v where v: "(if truthy v then
              then_exc (py_first v) (\<lambda>choice.
              then_exc (py_get choice ''message'' (JObj [])) (\<lambda>message.
              then_exc (py_get message ''content'' (JStr [])) py_strip))
            else
              then_exc (py_get j ''response'' (JStr [])) py_strip) = Inl exc" by blast
    show ?thesis
    proof (cases "truthy v")
      case False
      with v show ?thesis using inner by simp
    next
      case True
      with v have "then_exc (py_first v) (\<lambda>choice.
              then_exc (py_get choice ''message'' (JObj [])) (\<lambda>message.
              then_exc (py_get message ''content'' (JStr [])) py_strip)) = Inl exc" by simp
      from then_exc_Inl[OF this] show ?thesis
      proof
        assume "py_first v = Inl exc"
        then show ?thesis using py_first_no_L by blast
      next
        assume "\<exists>c. py_first v = Inr c \<and>
          then_exc (py_get c ''message'' (JObj [])) (\<lambda>message.
              then_exc (py_get message ''content'' (JStr [])) py_strip) = Inl exc"
        then obtain c where "then_exc (py_get c ''message'' (JObj [])) (\<lambda>message.
              then_exc (py_get message ''content'' (JStr [])) py_strip) = Inl exc" by blast
        from then_exc_Inl[OF this] show ?thesis
          using py_get_no_L inner by blast
      qed
    qed
  qed
qed

lemma llm_try_raised_on_reply:
  assumes "llm_try reply = Inl exc" and "raised_on_reply exc"
  shows "CHR ''L'' \<notin> set (str_exc exc)"
proof (cases reply)
  case (PostRaised m)
  with assms show ?thesis by (auto simp: llm_try_def raised_on_reply_def)
next
  case (StatusRaised m)
  with assms show ?thesis by (auto simp: llm_try_def raised_on_reply_def)
next
  case (Body b)
  show ?thesis
  proof (cases b)
    case (Inl m)
    with Body assms show ?thesis by (auto simp: llm_try_def raised_on_reply_def)
  next
    case (Inr j)
    with Body assms(1) show ?thesis using llm_try_body_no_L by blast
  qed
qed

lemma llm_error_LGTM: "str_in ''LGTM'' (''LLM Error: '' @ m) \<longleftrightarrow> str_in ''LGTM'' m"
proof -
  have "''LLM Error: '' @ m = ''LLM Error:'' @ CHR '' '' # m" by simp
  moreover have "sublist ''LGTM'' (''LLM Error:'' @ CHR '' '' # m) \<longleftrightarrow>
      sublist ''LGTM'' ''LLM Error:'' \<or> sublist ''LGTM'' m"
    by (rule sublist_across_sep) simp
  moreover have "\<not> sublist ''LGTM'' ''LLM Error:''" by (simp add: sublist_code)
  ultimately show ?thesis by (simp add: str_in_def)
qed

text \<open>
  Claim C5, as amended. When the \<open>try\<close> block of \<open>ask_llm\<close> raises (a transport
  failure, an error status, a failure to decode the reply or to read its structure),
  \<open>ask_llm\<close> returns the text \<open>LLM Error:\<close> followed by the message of the exception,
  and raises nothing. That text contains \<open>LGTM\<close> exactly when the message does, so the
  verdict is FLAGGED exactly when the message of the exception lacks \<open>LGTM\<close>; it is
  always FLAGGED for the exceptions that the interpreter raises on the decoded reply.
\<close>

theorem failure_text:
  assumes "llm_try reply = Inl exc"
  shows "llm_text reply = ''LLM Error: '' @ str_exc exc
       \<and> (str_in ''LGTM'' (llm_text reply) \<longleftrightarrow> str_in ''LGTM'' (str_exc exc))
       \<and> (raised_on_reply exc \<longrightarrow> \<not> str_in ''LGTM'' (llm_text reply))"
proof -
  from assms have t: "llm_text reply = ''LLM Error: '' @ str_exc exc"
    by (simp add: llm_text_def)
  have 2: "str_in ''LGTM'' (llm_text reply) \<longleftrightarrow> str_in ''LGTM'' (str_exc exc)"
    unfolding t by (rule llm_error_LGTM)
  have 3: "\<not> str_in ''LGTM'' (llm_text reply)" if "raised_on_reply exc"
  proof -
    from llm_try_raised_on_reply[OF assms that] have "CHR ''L'' \<notin> set (str_exc exc)" .
    moreover have "CHR ''L'' \<in> set ''LGTM''" by simp
    ultimately have "\<not> sublist ''LGTM'' (str_exc exc)"
      using set_mono_sublist[of "''LGTM''" "str_exc exc"] by blast
    then show ?thesis unfolding 2 by (simp add: str_in_def)
  qed
  from t 2 3 show ?thesis by blast
qed

theorem failure_text_witness:
  "llm_try (PostRaised ''Connection refused'') = Inl (RequestException ''Connection refused'')
   \<and> llm_text (PostRaised ''Connection refused'') = ''LLM Error: Connection refused''
   \<and> \<not> str_in ''LGTM'' (llm_text (PostRaised ''Connection refused''))
   \<and> llm_try (Body (Inr (JArr []))) = Inl (AttributeError ''list'' ''get'')
   \<and> raised_on_reply (AttributeError ''list'' ''get'')
   \<and> \<not> str_in ''LGTM'' (llm_text (Body (Inr (JArr []))))"
proof -
  have 1: "llm_try (PostRaised ''Connection refused'') = Inl (RequestException ''Connection refused'')"
    by (simp add: llm_try_def)
  have 2: "llm_try (Body (Inr (JArr []))) = Inl (AttributeError ''list'' ''get'')"
    by (simp add: llm_try_def then_exc_def)
  have 3: "raised_on_reply (AttributeError ''list'' ''get'')"
    by (simp add: raised_on_reply_def)
  have 4: "\<not> str_in ''LGTM'' ''Connection refused''"
    by (simp add: str_in_def sublist_code)
  have se: "str_exc (RequestException ''Connection refused'') = ''Connection refused''"
    by simp
  have ap: "''LLM Error: '' @ ''Connection refused'' = ''LLM Error: Connection refused''"
    by simp
  from failure_text[OF 1] 4 have a: "llm_text (PostRaised ''Connection refused'') = ''LLM Error: Connection refused''
     \<and> \<not> str_in ''LGTM'' (llm_text (PostRaised ''Connection refused''))"
    unfolding se ap by blast
  from failure_text[OF 2] 3 have b: "\<not> str_in ''LGTM'' (llm_text (Body (Inr (JArr []))))"
    by blast
  from 1 2 3 a b show ?thesis by blast
qed

text \<open>
  C5 as stated fails: an error status whose reason phrase is \<open>LGTM\<close> gives a message,
  and so a returned text, that contains \<open>LGTM\<close>; the failure counts as a clean review
  and no comment is added for it.
\<close>

theorem failure_silent_counterexample:
  "llm_try (StatusRaised ''500 Server Error: LGTM for url: http://localhost:11434/v1/chat/completions'')
     = Inl (RequestException ''500 Server Error: LGTM for url: http://localhost:11434/v1/chat/completions'')
   \<and> str_in ''LGTM''
        (llm_text (StatusRaised ''500 Server Error: LGTM for url: http://localhost:11434/v1/chat/completions''))
   \<and> add_comment 0
        (llm_text (StatusRaised ''500 Server Error: LGTM for url: http://localhost:11434/v1/chat/completions''))
        [] = []"
  by (simp add: llm_try_def llm_text_def add_comment_def str_in_def sublist_code)

section \<open>The report of a run\<close>













lemma example_no_files:
  "filter (\<lambda>f. f \<noteq> [] \<and> \<not> excluded_file f) (split_lines (strip [])) = []"
  by (simp add: strip_def)



end
